theory Spec2Isabelle
  imports Main "HOL-Library.Word"
begin

unbundle bit_operations_syntax

section \<open>ODrive I2C client: scalar types\<close>

text \<open>
  The header \<^verbatim>\<open>ArduinoI2C/odrive.h\<close> is a set of templates over a scalar type \<open>T\<close>.
  A template argument is modelled by a descriptor holding what the templates ask of
  \<open>T\<close>: the answers of \<^verbatim>\<open>std::is_integral\<close> and \<^verbatim>\<open>std::is_floating_point\<close>
  (\<open>category\<close>), whether \<open>T\<close> is signed (it decides what \<^verbatim>\<open>>>\<close> does) and
  \<^verbatim>\<open>sizeof(T)\<close>.  A value of \<open>T\<close> is modelled by its object representation, a word
  of \<open>bit_width T\<close> bits: an unsigned integer is read from it by \<open>unat\<close>, a signed one
  by \<open>sint\<close>, and a floating-point value is the word holding its IEEE-754 bit pattern.
  No arithmetic is done on floating-point values: the header only moves their bits.

  The integral types meant are the integer types proper (the fixed-width types and the
  types they are aliases of).  \<^verbatim>\<open>bool\<close> is integral for \<^verbatim>\<open>std::is_integral\<close> as well, so
  the templates compile for it, but its conversion from a byte is a test for non-zero
  and not a truncation: its values are outside this model.
\<close>

type_synonym uint8_t = "8 word"
type_synonym uint16_t = "16 word"
type_synonym uint32_t = "32 word"

datatype type_category = Integral | Floating_point | Other_type

record ctype =
  category :: type_category
  is_signed :: bool
  sizeof :: nat

definition uint8_T :: ctype where
  "uint8_T = \<lparr>category = Integral, is_signed = False, sizeof = 1\<rparr>"

definition uint16_T :: ctype where
  "uint16_T = \<lparr>category = Integral, is_signed = False, sizeof = 2\<rparr>"

definition uint32_T :: ctype where
  "uint32_T = \<lparr>category = Integral, is_signed = False, sizeof = 4\<rparr>"

definition uint64_T :: ctype where
  "uint64_T = \<lparr>category = Integral, is_signed = False, sizeof = 8\<rparr>"

definition int8_T :: ctype where
  "int8_T = \<lparr>category = Integral, is_signed = True, sizeof = 1\<rparr>"

definition int16_T :: ctype where
  "int16_T = \<lparr>category = Integral, is_signed = True, sizeof = 2\<rparr>"

definition int32_T :: ctype where
  "int32_T = \<lparr>category = Integral, is_signed = True, sizeof = 4\<rparr>"

definition int64_T :: ctype where
  "int64_T = \<lparr>category = Integral, is_signed = True, sizeof = 8\<rparr>"

text \<open>IEEE-754 single precision (32 bits) and double precision (64 bits).\<close>

definition float_T :: ctype where
  "float_T = \<lparr>category = Floating_point, is_signed = True, sizeof = 4\<rparr>"

definition double_T :: ctype where
  "double_T = \<lparr>category = Floating_point, is_signed = True, sizeof = 8\<rparr>"

text \<open>
  \<^verbatim>\<open>CHAR_BIT\<close> comes from \<^verbatim>\<open>limits.h\<close>; the header uses \<^verbatim>\<open>uint8_t\<close>, which exists
  only where a byte has 8 bits.
\<close>

definition CHAR_BIT :: nat where
  "CHAR_BIT = 8"

text \<open>\<^verbatim>\<open>bit_width<T> = CHAR_BIT * sizeof(T)\<close>, \<^verbatim>\<open>byte_width<T> = (bit_width<T> + 7) / 8\<close>.\<close>

definition bit_width :: "ctype \<Rightarrow> nat" where
  "bit_width T = CHAR_BIT * sizeof T"

definition byte_width :: "ctype \<Rightarrow> nat" where
  "byte_width T = (bit_width T + 7) div 8"

text \<open>
  \<^verbatim>\<open>unsigned_int_of_size\<close> is declared for every size and defined for 32 only:
  naming its \<^verbatim>\<open>::type\<close> at another size does not compile.
\<close>

definition unsigned_int_of_size :: "nat \<Rightarrow> ctype option" where
  "unsigned_int_of_size IBitSize = (if IBitSize = 32 then Some uint32_T else None)"

section \<open>The little-endian codec\<close>

text \<open>
  A call either yields a result or fails: \<open>Ill_formed\<close> is a template instantiation that
  does not compile (no overload is enabled, or an incomplete type is used),
  \<open>Out_of_bounds\<close> is an access outside the array the buffer pointer points into and
  \<open>No_return\<close> is control flowing off the end of a function that is declared to return
  a value (both are undefined behaviour in C++: nothing can be said of the program from
  there on).  A buffer pointer is an array (a list of bytes) and an
  offset into it, so that \<^verbatim>\<open>buffer[i]\<close> is element \<open>off + i\<close> of the array.
\<close>

datatype error = Ill_formed | Out_of_bounds | No_return

text \<open>
  \<^verbatim>\<open>for (size_t i = 0; i < byte_width<T>::value; ++i)
      value |= (static_cast<T>(buffer[i]) << (i << 3));\<close>
  The conversion of a byte to \<open>T\<close> keeps its bits (\<open>ucast\<close>); the shift is done in the
  promoted type and the assignment converts back to \<open>T\<close>, which keeps the low
  \<open>bit_width T\<close> bits, as \<open>push_bit\<close> on the word does.
\<close>

function read_le_loop :: "nat \<Rightarrow> uint8_t list \<Rightarrow> nat \<Rightarrow> nat \<Rightarrow> 'a::len word \<Rightarrow> error + 'a word" where
  "read_le_loop n buffer off i val =
     (if i < n then
        (if off + i < length buffer
         then read_le_loop n buffer off (Suc i)
                (val OR push_bit (push_bit 3 i) (ucast (buffer ! (off + i))))
         else Inl Out_of_bounds)
      else Inr val)"
  by pat_completeness auto
termination
  by (relation "measure (\<lambda>(n, buffer, off, i, val). n - i)") auto

declare read_le_loop.simps [simp del]

definition read_le_integral :: "ctype \<Rightarrow> uint8_t list \<Rightarrow> nat \<Rightarrow> error + 'a::len word" where
  "read_le_integral T buffer off = read_le_loop (byte_width T) buffer off 0 0"

text \<open>
  The floating-point overload reads the unsigned integer of the same bit width and
  reinterprets its object representation as \<open>T\<close>
  (\<^verbatim>\<open>*reinterpret_cast<T*>(&value)\<close>): the word is returned as it is.  The integral
  overload is the one chosen for \<^verbatim>\<open>T_Int\<close>, an unsigned integer type.
\<close>

definition read_le_floating :: "ctype \<Rightarrow> uint8_t list \<Rightarrow> nat \<Rightarrow> error + 'a::len word" where
  "read_le_floating T buffer off =
     (case unsigned_int_of_size (bit_width T) of
        None \<Rightarrow> Inl Ill_formed
      | Some T_Int \<Rightarrow> read_le_integral T_Int buffer off)"

text \<open>Overload resolution: \<^verbatim>\<open>std::enable_if\<close> on the category of \<open>T\<close>.\<close>

definition read_le :: "ctype \<Rightarrow> uint8_t list \<Rightarrow> nat \<Rightarrow> error + 'a::len word" where
  "read_le T buffer off =
     (case category T of
        Integral \<Rightarrow> read_le_integral T buffer off
      | Floating_point \<Rightarrow> read_le_floating T buffer off
      | Other_type \<Rightarrow> Inl Ill_formed)"

text \<open>
  \<^verbatim>\<open>value >> k\<close>: a logical shift for an unsigned \<open>T\<close>, an arithmetic one for a signed
  \<open>T\<close> (what GCC and Clang define for negative values).
\<close>

definition shift_right :: "ctype \<Rightarrow> 'a::len word \<Rightarrow> nat \<Rightarrow> 'a word" where
  "shift_right T val k = (if is_signed T then signed_drop_bit k val else drop_bit k val)"

text \<open>
  \<^verbatim>\<open>for (size_t i = 0; i < byte_width<T>::value; ++i)
      buffer[i] = (value >> (i << 3)) & 0xff;\<close>
\<close>

function write_le_loop :: "ctype \<Rightarrow> nat \<Rightarrow> uint8_t list \<Rightarrow> nat \<Rightarrow> nat \<Rightarrow> 'a::len word \<Rightarrow> error + uint8_t list" where
  "write_le_loop T n buffer off i val =
     (if i < n then
        (if off + i < length buffer
         then write_le_loop T n
                (buffer[off + i := ucast (shift_right T val (push_bit 3 i) AND 0xff)])
                off (Suc i) val
         else Inl Out_of_bounds)
      else Inr buffer)"
  by pat_completeness auto
termination
  by (relation "measure (\<lambda>(T, n, buffer, off, i, val). n - i)") auto

declare write_le_loop.simps [simp del]

definition write_le_integral :: "ctype \<Rightarrow> uint8_t list \<Rightarrow> nat \<Rightarrow> 'a::len word \<Rightarrow> error + uint8_t list" where
  "write_le_integral T buffer off val = write_le_loop T (byte_width T) buffer off 0 val"

text \<open>
  The floating-point overload reinterprets the value as the unsigned integer of the
  same bit width and writes that with the integral overload:
  \<^verbatim>\<open>write_le<T_Int>(buffer, *reinterpret_cast<T_Int*>(&value));\<close>
  Its return type is \<^verbatim>\<open>std::enable_if<std::is_floating_point<T>::value, T>::type\<close>,
  that is \<open>T\<close> (the integral overload has \<^verbatim>\<open>void\<close> there), and its body has no
  return statement: once the inner call is done, control flows off the end of a
  function that returns a value.  The call ends in \<open>No_return\<close>; the bytes the inner
  call wrote are not kept, since the program has no defined state after that.
\<close>

definition write_le_floating :: "ctype \<Rightarrow> uint8_t list \<Rightarrow> nat \<Rightarrow> 'a::len word \<Rightarrow> error + uint8_t list" where
  "write_le_floating T buffer off val =
     (case unsigned_int_of_size (bit_width T) of
        None \<Rightarrow> Inl Ill_formed
      | Some T_Int \<Rightarrow>
          (case write_le_integral T_Int buffer off val of
             Inl e \<Rightarrow> Inl e
           | Inr written \<Rightarrow> Inl No_return))"

definition write_le :: "ctype \<Rightarrow> uint8_t list \<Rightarrow> nat \<Rightarrow> 'a::len word \<Rightarrow> error + uint8_t list" where
  "write_le T buffer off val =
     (case category T of
        Integral \<Rightarrow> write_le_integral T buffer off val
      | Floating_point \<Rightarrow> write_le_floating T buffer off val
      | Other_type \<Rightarrow> Inl Ill_formed)"

section \<open>The transaction primitive and the endpoint catalog\<close>

text \<open>
  \<^verbatim>\<open>bool I2C_transaction(uint8_t slave_addr, const uint8_t * tx_buffer, size_t tx_length,
                       uint8_t * rx_buffer, size_t rx_length)\<close>
  is declared in the header and implemented by the user of the library.  A call is
  recorded with its five arguments; a buffer argument is the array it points to, or
  \<open>None\<close> for a null pointer.
\<close>

record i2c_request =
  slave_addr :: uint8_t
  tx_buffer :: "uint8_t list option"
  tx_length :: nat
  rx_buffer :: "uint8_t list option"
  rx_length :: nat

text \<open>
  The surroundings of a call: \<open>device\<close> is the behaviour of the primitive (its return
  value and the contents of the receive array when it returns), \<open>transactions\<close> is the
  list of the calls made so far, and \<open>indeterminate\<close> gives the bytes that a local array
  holds before it is written (the arrays of the header are not initialised).
\<close>

record machine =
  device :: "i2c_request \<Rightarrow> bool \<times> uint8_t list"
  transactions :: "i2c_request list"
  indeterminate :: "nat \<Rightarrow> uint8_t"

definition local_array :: "machine \<Rightarrow> nat \<Rightarrow> uint8_t list" where
  "local_array m n = map (indeterminate m) [0..<n]"

definition I2C_transaction ::
  "machine \<Rightarrow> uint8_t \<Rightarrow> uint8_t list option \<Rightarrow> nat \<Rightarrow> uint8_t list option \<Rightarrow> nat
     \<Rightarrow> bool \<times> uint8_t list \<times> machine" where
  "I2C_transaction m addr tx txlen rx rxlen =
     (let req = \<lparr>slave_addr = addr, tx_buffer = tx, tx_length = txlen,
                 rx_buffer = rx, rx_length = rxlen\<rparr>
      in (fst (device m req), snd (device m req),
          m\<lparr>transactions := transactions m @ [req]\<rparr>))"

text \<open>
  \<^verbatim>\<open>odrive_endpoints.h\<close> is generated from the firmware and is not part of the sources:
  the constant \<^verbatim>\<open>json_crc\<close> and the type \<^verbatim>\<open>endpoint_type_t<IPropertyId>\<close> of each
  property are taken as parameters.
\<close>

record catalog =
  json_crc :: uint16_t
  endpoint_type_t :: "int \<Rightarrow> ctype"

text \<open>\<^verbatim>\<open>static constexpr const uint8_t i2c_addr = (0xD << 3);\<close>\<close>

definition i2c_addr :: uint8_t where
  "i2c_addr = word_of_int (push_bit 3 0xD)"

section \<open>Reading and writing a property\<close>

text \<open>
  \<^verbatim>\<open>i2c_addr + num\<close> is computed in \<^verbatim>\<open>int\<close> and converted to the \<^verbatim>\<open>uint8_t\<close>
  parameter of the primitive.
\<close>

definition bus_address :: "uint8_t \<Rightarrow> uint8_t" where
  "bus_address num = word_of_int (uint i2c_addr + uint num)"

text \<open>
  Whether \<^verbatim>\<open>read_le<T>\<close> and \<^verbatim>\<open>write_le<T>\<close> compile: a function template that calls
  one of them is rejected as a whole when they do not, whichever path a call would take.
\<close>

definition instantiates :: "ctype \<Rightarrow> bool" where
  "instantiates T =
     (case category T of
        Integral \<Rightarrow> True
      | Floating_point \<Rightarrow> unsigned_int_of_size (bit_width T) \<noteq> None
      | Other_type \<Rightarrow> False)"

text \<open>
  \<^verbatim>\<open>bool read_property(uint8_t num, endpoint_type_t<IPropertyId>* value)\<close>.
  The pointer \<open>val\<close> is \<open>None\<close> when null and \<open>Some v\<close> when it points to an object
  holding \<open>v\<close>; the result is the returned flag, the object after the call and the
  machine after the call.
\<close>

definition read_property ::
  "catalog \<Rightarrow> int \<Rightarrow> machine \<Rightarrow> uint8_t \<Rightarrow> 'a::len word option
     \<Rightarrow> error + (bool \<times> 'a word option \<times> machine)" where
  "read_property cat IPropertyId m num val =
     (let T = endpoint_type_t cat IPropertyId;
          i2c_tx_buffer = local_array m 4
      in if \<not> instantiates T then Inl Ill_formed
         else
           case write_le uint16_T i2c_tx_buffer 0 (word_of_int IPropertyId :: uint16_t) of
             Inl e \<Rightarrow> Inl e
           | Inr tx1 \<Rightarrow>
          (case write_le uint16_T tx1 (length tx1 - 2) (json_crc cat) of
             Inl e \<Rightarrow> Inl e
           | Inr tx2 \<Rightarrow>
          (let i2c_rx_buffer = local_array m (byte_width T);
               (ok, rx, m') = I2C_transaction m (bus_address num)
                                (Some tx2) (length tx2)
                                (Some i2c_rx_buffer) (length i2c_rx_buffer)
           in if \<not> ok then Inr (False, val, m')
              else
                case val of
                  None \<Rightarrow> Inr (True, None, m')
                | Some _ \<Rightarrow>
                    (case read_le T rx 0 of
                       Inl e \<Rightarrow> Inl e
                     | Inr v \<Rightarrow> Inr (True, Some v, m')))))"

text \<open>\<^verbatim>\<open>bool write_property(uint8_t num, endpoint_type_t<IPropertyId> value)\<close>.\<close>

definition write_property ::
  "catalog \<Rightarrow> int \<Rightarrow> machine \<Rightarrow> uint8_t \<Rightarrow> 'a::len word \<Rightarrow> error + (bool \<times> machine)" where
  "write_property cat IPropertyId m num val =
     (let T = endpoint_type_t cat IPropertyId;
          i2c_tx_buffer = local_array m (4 + byte_width T)
      in case write_le uint16_T i2c_tx_buffer 0 (word_of_int IPropertyId :: uint16_t) of
           Inl e \<Rightarrow> Inl e
         | Inr tx1 \<Rightarrow>
        (case write_le T tx1 2 val of
           Inl e \<Rightarrow> Inl e
         | Inr tx2 \<Rightarrow>
        (case write_le uint16_T tx2 (length tx2 - 2) (json_crc cat) of
           Inl e \<Rightarrow> Inl e
         | Inr tx3 \<Rightarrow>
        (let (ok, rx, m') = I2C_transaction m (bus_address num)
                              (Some tx3) (length tx3) None 0
         in Inr (ok, m')))))"

section \<open>Reference values\<close>

text \<open>
  The byte sequence that the specification calls the encoding of a value: \<open>n\<close> bytes,
  least significant first, byte \<open>i\<close> holding bits \<open>8 i\<close> to \<open>8 i + 7\<close> of the value.
  It is written from the specification and is what the code is compared with.
\<close>

definition little_endian :: "nat \<Rightarrow> 'a::len word \<Rightarrow> uint8_t list" where
  "little_endian n v = map (\<lambda>i. ucast (drop_bit (8 * i) v)) [0..<n]"

text \<open>
  A catalog, a device and a machine on which the functions are evaluated: property 5
  is a \<^verbatim>\<open>uint16_t\<close>, every other property a \<^verbatim>\<open>float\<close>; the device acknowledges
  address \<open>0x6C\<close> only and fills the receive array with as many bytes as requested.
\<close>

definition demo_catalog :: catalog where
  "demo_catalog =
     \<lparr>json_crc = 0x9B40, endpoint_type_t = (\<lambda>i. if i = 5 then uint16_T else float_T)\<rparr>"

definition demo_device :: "i2c_request \<Rightarrow> bool \<times> uint8_t list" where
  "demo_device req =
     (slave_addr req = 0x6C,
      take (rx_length req) [0xE8, 0x03, 0x00, 0x3F] @ replicate (rx_length req - 4) 0)"

definition demo_machine :: machine where
  "demo_machine = \<lparr>device = demo_device, transactions = [], indeterminate = (\<lambda>i. 0xAA)\<rparr>"

section \<open>Widths\<close>

lemma bit_width_eq: "bit_width T = 8 * sizeof T"
  by (simp add: bit_width_def CHAR_BIT_def)

lemma byte_width_eq: "byte_width T = sizeof T"
  by (simp add: byte_width_def bit_width_eq)

lemma uint16_T_facts [simp]:
  "category uint16_T = Integral" "byte_width uint16_T = 2" "bit_width uint16_T = 16"
  by (simp_all add: uint16_T_def byte_width_eq bit_width_eq)

lemma push_bit_3_nat: "push_bit 3 (i::nat) = 8 * i"
  by (simp add: push_bit_eq_mult)

lemmas codec_eval = write_le_def write_le_integral_def write_le_floating_def
  read_le_def read_le_integral_def read_le_floating_def unsigned_int_of_size_def
  byte_width_def bit_width_def CHAR_BIT_def write_le_loop.simps read_le_loop.simps
  shift_right_def push_bit_3_nat

section \<open>The loops of the codec\<close>

lemma write_le_loop_Inr:
  fixes val :: "'a::len word"
  assumes "off + n \<le> length buffer"
  shows "\<exists>buf'. write_le_loop T n buffer off i val = Inr buf' \<and> length buf' = length buffer \<and>
     (\<forall>j < length buffer. buf' ! j =
        (if off + i \<le> j \<and> j < off + n
         then ucast (shift_right T val (8 * (j - off)) AND 0xff) else buffer ! j))"
  using assms
proof (induction T n buffer off i val rule: write_le_loop.induct)
  case (1 T n buffer off i val)
  show ?case
  proof (cases "i < n")
    case False
    then have "write_le_loop T n buffer off i val = Inr buffer"
      by (subst write_le_loop.simps) simp
    moreover have "\<not> (off + i \<le> j \<and> j < off + n)" for j using False by arith
    ultimately show ?thesis by auto
  next
    case True
    define b where "b = buffer[off + i := ucast (shift_right T val (push_bit 3 i) AND 0xff)]"
    from True "1.prems" have inb: "off + i < length buffer" by simp
    have lb: "length b = length buffer" by (simp add: b_def)
    have pre: "off + n \<le> length b" using "1.prems" lb by simp
    have "\<exists>buf'. write_le_loop T n b off (Suc i) val = Inr buf' \<and> length buf' = length b \<and>
     (\<forall>j < length b. buf' ! j =
        (if off + Suc i \<le> j \<and> j < off + n
         then ucast (shift_right T val (8 * (j - off)) AND 0xff) else b ! j))"
      unfolding b_def using "1.IH"[OF True inb] pre[unfolded b_def] by blast
    then obtain buf' where b1: "write_le_loop T n b off (Suc i) val = Inr buf'"
      and b2: "length buf' = length b"
      and b3: "\<And>j. j < length b \<Longrightarrow> buf' ! j =
        (if off + Suc i \<le> j \<and> j < off + n
         then ucast (shift_right T val (8 * (j - off)) AND 0xff) else b ! j)"
      by blast
    have step: "write_le_loop T n buffer off i val = Inr buf'"
      using True inb b1 unfolding b_def by (subst write_le_loop.simps) simp
    have nth: "buf' ! j =
        (if off + i \<le> j \<and> j < off + n
         then ucast (shift_right T val (8 * (j - off)) AND 0xff) else buffer ! j)"
      if j: "j < length buffer" for j
    proof (cases "j = off + i")
      case True
      have "buf' ! j = b ! j" using b3[of j] j lb True by simp
      also have "\<dots> = ucast (shift_right T val (push_bit 3 i) AND 0xff)"
        using True inb by (simp add: b_def)
      also have "push_bit 3 i = 8 * (j - off)" using True by (simp add: push_bit_eq_mult)
      finally show ?thesis using True \<open>i < n\<close> by simp
    next
      case False
      have "b ! j = buffer ! j" using False by (simp add: b_def)
      moreover have "(off + Suc i \<le> j) = (off + i \<le> j)" using False by auto
      ultimately show ?thesis using b3[of j] j lb by simp
    qed
    from step b2 lb nth show ?thesis by simp
  qed
qed

lemma read_le_loop_Inr:
  assumes "off + n \<le> length buffer"
  shows "\<exists>r :: 'a::len word. read_le_loop n buffer off i val = Inr r \<and>
     (\<forall>j. bit r j \<longleftrightarrow> bit val j \<or>
        (j < LENGTH('a) \<and> i \<le> j div 8 \<and> j div 8 < n \<and> bit (buffer ! (off + j div 8)) (j mod 8)))"
  using assms
proof (induction n buffer off i val rule: read_le_loop.induct)
  case (1 n buffer off i val)
  show ?case
  proof (cases "i < n")
    case False
    then have "read_le_loop n buffer off i val = Inr val"
      by (subst read_le_loop.simps) simp
    moreover have "\<not> (i \<le> j div 8 \<and> j div 8 < n)" for j using False by arith
    ultimately show ?thesis by auto
  next
    case True
    define v where "v = val OR push_bit (push_bit 3 i) (ucast (buffer ! (off + i)))"
    from True "1.prems" have inb: "off + i < length buffer" by simp
    have "\<exists>r :: 'a word. read_le_loop n buffer off (Suc i) v = Inr r \<and>
     (\<forall>j. bit r j \<longleftrightarrow> bit v j \<or>
        (j < LENGTH('a) \<and> Suc i \<le> j div 8 \<and> j div 8 < n \<and> bit (buffer ! (off + j div 8)) (j mod 8)))"
      unfolding v_def using "1.IH"[OF True inb] "1.prems" by blast
    then obtain r :: "'a word" where r1: "read_le_loop n buffer off (Suc i) v = Inr r"
      and r2: "\<And>j. bit r j \<longleftrightarrow> bit v j \<or>
        (j < LENGTH('a) \<and> Suc i \<le> j div 8 \<and> j div 8 < n \<and> bit (buffer ! (off + j div 8)) (j mod 8))"
      by blast
    have step: "read_le_loop n buffer off i val = Inr r"
      using True inb r1 unfolding v_def by (subst read_le_loop.simps) simp
    have sh: "push_bit 3 i = 8 * i" by (simp add: push_bit_eq_mult)
    have byte: "bit (push_bit (push_bit 3 i) (ucast (buffer ! (off + i)) :: 'a word)) j \<longleftrightarrow>
         j < LENGTH('a) \<and> j div 8 = i \<and> bit (buffer ! (off + i)) (j mod 8)" for j
    proof (cases "j div 8 = i")
      case True
      then have "8 * i \<le> j" "j - 8 * i = j mod 8" "j mod 8 < 8"
        by (auto simp: minus_mult_div_eq_mod)
      then show ?thesis using True unfolding sh
        by (auto simp add: bit_simps)
    next
      case False
      then have "\<not> (8 * i \<le> j \<and> j - 8 * i < 8)" by auto
      then show ?thesis using False unfolding sh
        by (auto simp add: bit_simps dest: bit_imp_le_length)
    qed
    have "bit r j \<longleftrightarrow> bit val j \<or>
        (j < LENGTH('a) \<and> i \<le> j div 8 \<and> j div 8 < n \<and> bit (buffer ! (off + j div 8)) (j mod 8))" for j
    proof -
      have "(i \<le> j div 8) = (j div 8 = i \<or> Suc i \<le> j div 8)" by auto
      then show ?thesis unfolding r2[of j] v_def bit_or_iff byte using True by auto
    qed
    with step show ?thesis by blast
  qed
qed

lemma write_le_integral_Inr:
  fixes val :: "'a::len word"
  assumes "off + byte_width T \<le> length buffer"
  shows "\<exists>buf'. write_le_integral T buffer off val = Inr buf' \<and> length buf' = length buffer \<and>
     (\<forall>j < length buffer. buf' ! j =
        (if off \<le> j \<and> j < off + byte_width T
         then ucast (shift_right T val (8 * (j - off)) AND 0xff) else buffer ! j))"
  using write_le_loop_Inr[OF assms, of T 0 val] by (simp add: write_le_integral_def)

lemma read_le_integral_Inr:
  assumes "off + byte_width T \<le> length buffer"
  shows "\<exists>r :: 'a::len word. read_le_integral T buffer off = Inr r \<and>
     (\<forall>j. bit r j \<longleftrightarrow>
        j < LENGTH('a) \<and> j div 8 < byte_width T \<and> bit (buffer ! (off + j div 8)) (j mod 8))"
  using read_le_loop_Inr[OF assms, of 0 "0 :: 'a word"] by (simp add: read_le_integral_def)

lemma byte_of_shift_right:
  fixes val :: "'a::len word"
  assumes "k + 8 \<le> LENGTH('a)"
  shows "(ucast (shift_right T val k AND 0xff) :: uint8_t) = ucast (drop_bit k val)"
proof (rule bit_word_eqI)
  fix j assume "j < LENGTH(8)"
  then have j: "j < 8" by simp
  have m: "(0xff :: 'a word) = mask 8" by (simp add: mask_eq_exp_minus_1)
  from j assms show "bit (ucast (shift_right T val k AND 0xff) :: uint8_t) j = bit (ucast (drop_bit k val) :: uint8_t) j"
    unfolding m shift_right_def
    by (auto simp add: bit_simps)
qed

lemma byte_value_unsigned:
  fixes v :: "'a::len word"
  shows "unat (ucast (drop_bit k v) :: uint8_t) = unat v div 2 ^ k mod 256"
  unfolding unsigned_ucast_eq unat_drop_bit_eq
  by (simp add: take_bit_eq_mod drop_bit_eq_div)

lemma byte_value_signed:
  fixes v :: "'a::len word"
  assumes "k + 8 \<le> LENGTH('a)"
  shows "uint (ucast (drop_bit k v) :: uint8_t) = sint v div 2 ^ k mod 256"
proof -
  have "uint (ucast (drop_bit k v) :: uint8_t) = take_bit 8 (drop_bit k (sint v))"
  proof (rule bit_eqI)
    fix n
    have "k + n = LENGTH('a) - Suc 0" if "LENGTH('a) - Suc 0 \<le> k + n" "n < 8"
      using that assms by arith
    then show "bit (uint (ucast (drop_bit k v) :: uint8_t)) n = bit (take_bit 8 (drop_bit k (sint v))) n"
      using assms by (auto simp add: bit_simps bit_sint_iff min_def dest: bit_imp_le_length)
  qed
  then show ?thesis by (simp add: take_bit_eq_mod drop_bit_eq_div)
qed

lemma write_le_integral_bytes:
  fixes val :: "'a::len word"
  assumes len: "LENGTH('a) = bit_width T"
    and inb: "off + byte_width T \<le> length buffer"
  shows "\<exists>buf'. write_le_integral T buffer off val = Inr buf' \<and> length buf' = length buffer \<and>
     (\<forall>i < byte_width T. buf' ! (off + i) = ucast (drop_bit (8 * i) val)) \<and>
     (\<forall>j < length buffer. j < off \<or> off + byte_width T \<le> j \<longrightarrow> buf' ! j = buffer ! j)"
proof -
  from write_le_integral_Inr[OF inb, of val]
  obtain buf' where w: "write_le_integral T buffer off val = Inr buf'"
    and l: "length buf' = length buffer"
    and n: "\<And>j. j < length buffer \<Longrightarrow> buf' ! j =
        (if off \<le> j \<and> j < off + byte_width T
         then ucast (shift_right T val (8 * (j - off)) AND 0xff) else buffer ! j)"
    by blast
  have inside: "buf' ! (off + i) = ucast (drop_bit (8 * i) val)" if i: "i < byte_width T" for i
  proof -
    have fit: "8 * i + 8 \<le> LENGTH('a)" using i len by (simp add: bit_width_eq byte_width_eq)
    have "buf' ! (off + i) = ucast (shift_right T val (8 * i) AND 0xff)"
      using n[of "off + i"] i inb by simp
    then show ?thesis by (simp add: byte_of_shift_right[OF fit])
  qed
  have outside: "buf' ! j = buffer ! j"
    if "j < length buffer" "j < off \<or> off + byte_width T \<le> j" for j
    using n[of j] that by auto
  from w l inside outside show ?thesis by blast
qed

lemma read_le_integral_bytes:
  fixes val :: "'a::len word"
  assumes len: "LENGTH('a) = bit_width T"
    and inb: "off + byte_width T \<le> length buffer"
    and bytes: "\<And>i. i < byte_width T \<Longrightarrow> buffer ! (off + i) = ucast (drop_bit (8 * i) val)"
  shows "read_le_integral T buffer off = Inr val"
proof -
  from read_le_integral_Inr[OF inb]
  obtain r :: "'a word" where r: "read_le_integral T buffer off = Inr r"
    and b: "\<And>j. bit r j \<longleftrightarrow>
        j < LENGTH('a) \<and> j div 8 < byte_width T \<and> bit (buffer ! (off + j div 8)) (j mod 8)"
    by blast
  have "r = val"
  proof (rule bit_word_eqI)
    fix j assume j: "j < LENGTH('a)"
    then have k: "j div 8 < byte_width T" using len by (simp add: bit_width_eq byte_width_eq)
    have "bit (buffer ! (off + j div 8)) (j mod 8) = bit val (8 * (j div 8) + j mod 8)"
      by (simp add: bytes[OF k] bit_simps)
    then show "bit r j = bit val j" using b[of j] j k by simp
  qed
  with r show ?thesis by simp
qed

lemma read_le_integral_prefix:
  assumes inb: "off + byte_width T \<le> length buffer"
  shows "read_le_integral T buffer off =
         (read_le_integral T (take (byte_width T) (drop off buffer)) 0 :: error + 'a::len word)"
proof -
  let ?w = "take (byte_width T) (drop off buffer)"
  from read_le_integral_Inr[OF inb]
  obtain r :: "'a word" where r: "read_le_integral T buffer off = Inr r"
    and b: "\<And>j. bit r j \<longleftrightarrow>
        j < LENGTH('a) \<and> j div 8 < byte_width T \<and> bit (buffer ! (off + j div 8)) (j mod 8)"
    by blast
  have "0 + byte_width T \<le> length ?w" using inb by simp
  from read_le_integral_Inr[OF this]
  obtain r' :: "'a word" where r': "read_le_integral T ?w 0 = Inr r'"
    and b': "\<And>j. bit r' j \<longleftrightarrow>
        j < LENGTH('a) \<and> j div 8 < byte_width T \<and> bit (?w ! (0 + j div 8)) (j mod 8)"
    by blast
  have "r = r'"
  proof (rule bit_word_eqI)
    fix j assume "j < LENGTH('a)"
    have "?w ! (0 + j div 8) = buffer ! (off + j div 8)" if "j div 8 < byte_width T"
      using that inb by simp
    then show "bit r j = bit r' j" unfolding b b' by auto
  qed
  with r r' show ?thesis by simp
qed

section \<open>The two overloads\<close>

lemma integral_as_integral:
  assumes "category T = Integral"
  shows "write_le T buffer off val = write_le_integral T buffer off val"
    and "read_le T buffer off = read_le_integral T buffer off"
  using assms by (simp_all add: write_le_def read_le_def)

lemma floating_as_uint32:
  assumes "category T = Floating_point" "bit_width T = 32"
  shows "write_le T buffer off val =
           (case write_le_integral uint32_T buffer off val of
              Inl e \<Rightarrow> Inl e
            | Inr written \<Rightarrow> Inl No_return)"
    and "read_le T buffer off = read_le_integral uint32_T buffer off"
    and "byte_width uint32_T = byte_width T"
    and "bit_width uint32_T = bit_width T"
  using assms
  by (simp_all add: write_le_def read_le_def write_le_floating_def read_le_floating_def
      unsigned_int_of_size_def byte_width_def bit_width_eq uint32_T_def)

lemma write_le_floating_no_return:
  assumes f: "category T = Floating_point" "bit_width T = 32"
    and inb: "off + byte_width T \<le> length buffer"
  shows "write_le T buffer off val = Inl No_return"
proof -
  have "off + byte_width uint32_T \<le> length buffer"
    using inb floating_as_uint32(3)[OF f] by simp
  from write_le_integral_Inr[OF this, of val]
  obtain written where "write_le_integral uint32_T buffer off val = Inr written" by blast
  then show ?thesis by (simp add: floating_as_uint32(1)[OF f])
qed

lemma write_le_bytes_integral:
  fixes val :: "'a::len word"
  assumes int: "category T = Integral"
    and len: "LENGTH('a) = bit_width T"
    and inb: "off + byte_width T \<le> length buffer"
  shows "\<exists>buf'. write_le T buffer off val = Inr buf' \<and> length buf' = length buffer \<and>
     (\<forall>i < byte_width T. buf' ! (off + i) = ucast (drop_bit (8 * i) val)) \<and>
     (\<forall>j < length buffer. j < off \<or> off + byte_width T \<le> j \<longrightarrow> buf' ! j = buffer ! j)"
  using write_le_integral_bytes[OF len inb, of val] by (simp add: integral_as_integral[OF int])

lemma read_le_bytes_supported:
  fixes val :: "'a::len word"
  assumes sup: "category T = Integral \<or> (category T = Floating_point \<and> bit_width T = 32)"
    and len: "LENGTH('a) = bit_width T"
    and inb: "off + byte_width T \<le> length buffer"
    and bytes: "\<And>i. i < byte_width T \<Longrightarrow> buffer ! (off + i) = ucast (drop_bit (8 * i) val)"
  shows "read_le T buffer off = Inr val"
proof (cases "category T = Integral")
  case True
  show ?thesis
    using read_le_integral_bytes[OF len inb bytes] by (simp add: integral_as_integral[OF True])
next
  case False
  with sup have f: "category T = Floating_point" "bit_width T = 32" by auto
  note eq = floating_as_uint32[OF f]
  have "LENGTH('a) = bit_width uint32_T" "off + byte_width uint32_T \<le> length buffer"
    using len inb by (simp_all add: eq)
  moreover have "\<And>i. i < byte_width uint32_T \<Longrightarrow> buffer ! (off + i) = ucast (drop_bit (8 * i) val)"
    using bytes by (simp add: eq)
  ultimately have "read_le_integral uint32_T buffer off = Inr val"
    by (rule read_le_integral_bytes)
  then show ?thesis by (simp add: eq)
qed

lemma read_le_supported_Inr:
  assumes sup: "category T = Integral \<or> (category T = Floating_point \<and> bit_width T = 32)"
    and inb: "off + byte_width T \<le> length buffer"
  shows "\<exists>r :: 'a::len word. read_le T buffer off = Inr r"
proof (cases "category T = Integral")
  case True
  then show ?thesis
    using read_le_integral_Inr[OF inb] by (auto simp add: integral_as_integral)
next
  case False
  with sup have f: "category T = Floating_point" "bit_width T = 32" by auto
  have "off + byte_width uint32_T \<le> length buffer" using inb floating_as_uint32(3)[OF f] by simp
  from read_le_integral_Inr[OF this] show ?thesis
    by (auto simp add: floating_as_uint32(2)[OF f])
qed

lemma read_le_loop_not_ill_formed:
  "read_le_loop n buffer off i val \<noteq> Inl Ill_formed"
proof (induction n buffer off i val rule: read_le_loop.induct)
  case (1 n buffer off i val)
  then show ?case by (subst read_le_loop.simps) simp
qed

lemma write_le_loop_not_ill_formed:
  "write_le_loop T n buffer off i val \<noteq> Inl Ill_formed"
proof (induction T n buffer off i val rule: write_le_loop.induct)
  case (1 T n buffer off i val)
  then show ?case by (subst write_le_loop.simps) simp
qed

lemma read_le_ill_formed_iff:
  "(read_le T buffer off = (Inl Ill_formed :: error + 'a::len word)) = (\<not> instantiates T)"
  by (cases "category T")
    (simp_all add: read_le_def read_le_integral_def read_le_floating_def instantiates_def
      read_le_loop_not_ill_formed split: option.splits)

lemma write_le_loop_Inl:
  "write_le_loop T n buffer off i val = Inl e \<Longrightarrow> e \<noteq> Ill_formed"
  using write_le_loop_not_ill_formed[of T n buffer off i val] by auto

lemma write_le_ill_formed_iff:
  "(write_le T buffer off val = Inl Ill_formed) = (\<not> instantiates T)"
  by (cases "category T")
    (auto simp add: write_le_def write_le_integral_def write_le_floating_def instantiates_def
      write_le_loop_not_ill_formed split: option.splits sum.splits dest: write_le_loop_Inl)

lemma instantiates_iff:
  "instantiates T = (category T = Integral \<or> (category T = Floating_point \<and> bit_width T = 32))"
  by (cases "category T") (simp_all add: instantiates_def unsigned_int_of_size_def)

section \<open>Properties of the codec\<close>

text \<open>
  Claim C1, as the code has it.  For an integral type of any width, signed or unsigned,
  writing a value with \<open>write_le\<close> and reading the buffer back with \<open>read_le\<close> returns
  the value bit for bit (a negative integer is a word with its top bit set).  For a
  floating-point type of 32 bits, \<open>read_le\<close> returns bit for bit the value whose bit
  pattern was written as a \<^verbatim>\<open>uint32_t\<close> (zero, negative zero and fractions are bit
  patterns like any other).  The buffer must hold \<open>byte_width T\<close> bytes from the offset
  on.
\<close>

theorem read_le_write_le_roundtrip:
  fixes v :: "'a::len word"
  assumes len: "LENGTH('a) = bit_width T"
    and inb: "off + byte_width T \<le> length buffer"
  shows "(category T = Integral \<longrightarrow>
            (\<exists>buf'. write_le T buffer off v = Inr buf' \<and> read_le T buf' off = Inr v)) \<and>
         (category T = Floating_point \<and> bit_width T = 32 \<longrightarrow>
            (\<exists>buf'. write_le uint32_T buffer off v = Inr buf' \<and> read_le T buf' off = Inr v))"
proof (intro conjI impI)
  assume int: "category T = Integral"
  from write_le_bytes_integral[OF int len inb, of v]
  obtain buf' where w: "write_le T buffer off v = Inr buf'"
    and l: "length buf' = length buffer"
    and b: "\<And>i. i < byte_width T \<Longrightarrow> buf' ! (off + i) = ucast (drop_bit (8 * i) v)"
    by blast
  have "off + byte_width T \<le> length buf'" using inb l by simp
  from read_le_bytes_supported[OF disjI1[OF int] len this b]
  have "read_le T buf' off = Inr v" by simp
  with w show "\<exists>buf'. write_le T buffer off v = Inr buf' \<and> read_le T buf' off = Inr v"
    by blast
next
  assume f: "category T = Floating_point \<and> bit_width T = 32"
  have int: "category uint32_T = Integral" by (simp add: uint32_T_def)
  have len': "LENGTH('a) = bit_width uint32_T"
    and bw: "byte_width uint32_T = byte_width T"
    using len f by (simp_all add: bit_width_eq byte_width_eq uint32_T_def)
  have inb': "off + byte_width uint32_T \<le> length buffer" using inb bw by simp
  from write_le_bytes_integral[OF int len' inb', of v]
  obtain buf' where w: "write_le uint32_T buffer off v = Inr buf'"
    and l: "length buf' = length buffer"
    and b: "\<And>i. i < byte_width T \<Longrightarrow> buf' ! (off + i) = ucast (drop_bit (8 * i) v)"
    unfolding bw by blast
  have "off + byte_width T \<le> length buf'" using inb l by simp
  from read_le_bytes_supported[OF disjI2[OF f] len this b]
  have "read_le T buf' off = Inr v" by simp
  with w show "\<exists>buf'. write_le uint32_T buffer off v = Inr buf' \<and> read_le T buf' off = Inr v"
    by blast
qed

theorem read_le_write_le_roundtrip_witness:
  "LENGTH(32) = bit_width int32_T \<and> 0 + byte_width int32_T \<le> length [0, 0, 0, 0 :: uint8_t] \<and>
   category int32_T = Integral \<and>
   write_le int32_T [0, 0, 0, 0] 0 (- 2 :: 32 word) = Inr [0xFE, 0xFF, 0xFF, 0xFF] \<and>
   read_le int32_T [0xFE, 0xFF, 0xFF, 0xFF] 0 = Inr (- 2 :: 32 word) \<and>
   LENGTH(32) = bit_width float_T \<and> 0 + byte_width float_T \<le> length [0, 0, 0, 0 :: uint8_t] \<and>
   category float_T = Floating_point \<and> bit_width float_T = 32 \<and>
   write_le uint32_T [0, 0, 0, 0] 0 (0x80000000 :: 32 word) = Inr [0, 0, 0, 0x80] \<and>
   read_le float_T [0, 0, 0, 0x80] 0 = Inr (0x80000000 :: 32 word)"
  using read_le_write_le_roundtrip[of int32_T 0 "[0, 0, 0, 0]" "- 2 :: 32 word"]
    read_le_write_le_roundtrip[of float_T 0 "[0, 0, 0, 0]" "0x80000000 :: 32 word"]
  by (simp add: codec_eval int32_T_def float_T_def uint32_T_def)

text \<open>
  The claim as the specification states it says that every supported type, single and
  double precision among them, can be written and read back.  On the code a value of
  double precision has no codec at all, and writing a value of single precision
  (here negative zero) does not return.
\<close>

theorem roundtrip_floating_point_counterexample:
  "write_le double_T [0, 0, 0, 0, 0, 0, 0, 0] 0 (0x8000000000000000 :: 64 word) = Inl Ill_formed \<and>
   write_le float_T [0, 0, 0, 0] 0 (0x80000000 :: 32 word) = Inl No_return"
  by (simp add: codec_eval double_T_def float_T_def uint32_T_def)

text \<open>
  Claim C2.  For an integral type \<open>T\<close>, \<open>write_le\<close> writes exactly \<open>byte_width T\<close>
  bytes, least significant first: byte \<open>i\<close> is \<^verbatim>\<open>(value >> 8 i) & 0xff\<close>, which is the
  unsigned reading of the value divided by \<open>2 ^ (8 i)\<close> modulo 256, and also the signed
  reading divided (rounding down) by \<open>2 ^ (8 i)\<close> modulo 256.  The rest of the array is
  left as it was, whatever the value.  \<open>byte_width T\<close> is the bit width divided by 8 and
  rounded up, and the \<^verbatim>\<open>uint32_t\<close> value \<open>0x01020304\<close> is written as \<open>04 03 02 01\<close>.
\<close>

theorem write_le_little_endian:
  fixes v :: "'a::len word"
  assumes int: "category T = Integral"
    and len: "LENGTH('a) = bit_width T"
    and inb: "off + byte_width T \<le> length buffer"
  shows "(\<exists>buf'. write_le T buffer off v = Inr buf' \<and> length buf' = length buffer \<and>
       (\<forall>i < byte_width T.
          buf' ! (off + i) = ucast (shift_right T v (8 * i) AND 0xff) \<and>
          unat (buf' ! (off + i)) = unat v div 2 ^ (8 * i) mod 256 \<and>
          uint (buf' ! (off + i)) = sint v div 2 ^ (8 * i) mod 256) \<and>
       (\<forall>j < length buffer. j < off \<or> off + byte_width T \<le> j \<longrightarrow> buf' ! j = buffer ! j)) \<and>
     bit_width T \<le> 8 * byte_width T \<and> 8 * byte_width T < bit_width T + 8 \<and>
     write_le uint32_T [b0, b1, b2, b3] 0 (0x01020304 :: uint32_t) = Inr [0x04, 0x03, 0x02, 0x01]"
proof -
  from write_le_bytes_integral[OF int len inb, of v]
  obtain buf' where w: "write_le T buffer off v = Inr buf'"
    and l: "length buf' = length buffer"
    and b: "\<And>i. i < byte_width T \<Longrightarrow> buf' ! (off + i) = ucast (drop_bit (8 * i) v)"
    and o: "\<forall>j < length buffer. j < off \<or> off + byte_width T \<le> j \<longrightarrow> buf' ! j = buffer ! j"
    by blast
  have bytes: "buf' ! (off + i) = ucast (shift_right T v (8 * i) AND 0xff) \<and>
          unat (buf' ! (off + i)) = unat v div 2 ^ (8 * i) mod 256 \<and>
          uint (buf' ! (off + i)) = sint v div 2 ^ (8 * i) mod 256" if i: "i < byte_width T" for i
  proof -
    have fit: "8 * i + 8 \<le> LENGTH('a)" using i len by (simp add: bit_width_eq byte_width_eq)
    show ?thesis
      unfolding b[OF i] byte_of_shift_right[OF fit]
      using byte_value_unsigned[of "8 * i" v] byte_value_signed[OF fit, of v] by simp
  qed
  have ex: "write_le uint32_T [b0, b1, b2, b3] 0 (0x01020304 :: uint32_t) = Inr [0x04, 0x03, 0x02, 0x01]"
    by (simp add: codec_eval uint32_T_def)
  have "bit_width T \<le> 8 * byte_width T" "8 * byte_width T < bit_width T + 8"
    by (simp_all add: bit_width_eq byte_width_eq)
  with w l bytes o ex show ?thesis by blast
qed

theorem write_le_little_endian_witness:
  "category int16_T = Integral \<and> LENGTH(16) = bit_width int16_T \<and>
   1 + byte_width int16_T \<le> length [0x11, 0x22, 0x33, 0x44 :: uint8_t] \<and>
   write_le int16_T [0x11, 0x22, 0x33, 0x44] 1 (- 2 :: 16 word) = Inr [0x11, 0xFE, 0xFF, 0x44] \<and>
   write_le uint32_T [0, 0, 0, 0] 0 (0x01020304 :: uint32_t) = Inr [0x04, 0x03, 0x02, 0x01]"
  using write_le_little_endian[of int16_T 1 "[0x11, 0x22, 0x33, 0x44]" "- 2 :: 16 word" 0 0 0 0]
  by (simp add: codec_eval int16_T_def)

text \<open>
  Claim C3, as the code has it.  Whether \<open>read_le\<close> and \<open>write_le\<close> compile depends on
  the type alone, never on the buffer or the value: they compile for every integral
  type (among them the signed and unsigned integers of 8, 16, 32 and 64 bits) and for a
  floating-point type of 32 bits, and for nothing else.  A floating-point type of 64
  bits (IEEE-754 double precision) is rejected, because \<^verbatim>\<open>unsigned_int_of_size\<close> is
  defined at size 32 only.
\<close>

theorem codec_instantiation:
  "((read_le T buffer off = (Inl Ill_formed :: error + 'a::len word)) =
      (\<not> (category T = Integral \<or> (category T = Floating_point \<and> bit_width T = 32)))) \<and>
   ((write_le T buffer off (v :: 'a word) = Inl Ill_formed) =
      (\<not> (category T = Integral \<or> (category T = Floating_point \<and> bit_width T = 32)))) \<and>
   (\<forall>S \<in> set [uint8_T, int8_T, uint16_T, int16_T, uint32_T, int32_T, uint64_T, int64_T, float_T].
      read_le S buffer off \<noteq> (Inl Ill_formed :: error + 'a word) \<and>
      write_le S buffer off v \<noteq> Inl Ill_formed) \<and>
   read_le double_T buffer off = (Inl Ill_formed :: error + 'a word) \<and>
   write_le double_T buffer off v = Inl Ill_formed"
proof -
  have "\<forall>S \<in> set [uint8_T, int8_T, uint16_T, int16_T, uint32_T, int32_T, uint64_T, int64_T, float_T].
          instantiates S"
    by (simp add: instantiates_iff bit_width_eq uint8_T_def int8_T_def uint16_T_def int16_T_def
        uint32_T_def int32_T_def uint64_T_def int64_T_def float_T_def)
  moreover have "\<not> instantiates double_T"
    by (simp add: instantiates_iff bit_width_eq double_T_def)
  ultimately show ?thesis
    unfolding read_le_ill_formed_iff write_le_ill_formed_iff
    by (simp add: instantiates_iff)
qed

text \<open>
  The claim as the specification states it includes double precision; on the code a
  64-bit floating-point type has no codec.
\<close>

theorem double_rejected_counterexample:
  "read_le double_T [0, 0, 0, 0, 0, 0, 0xE0, 0x3F] 0 = (Inl Ill_formed :: error + 64 word) \<and>
   write_le double_T [0, 0, 0, 0, 0, 0, 0, 0] 0 (0x3FE0000000000000 :: 64 word) = Inl Ill_formed"
  by (simp add: codec_eval double_T_def)

theorem codec_instantiation_witness:
  "float_T \<in> set [uint8_T, int8_T, uint16_T, int16_T, uint32_T, int32_T, uint64_T, int64_T, float_T] \<and>
   read_le float_T [0, 0, 0, 0x3F] 0 \<noteq> (Inl Ill_formed :: error + 32 word) \<and>
   write_le float_T [0, 0, 0, 0x3F] 0 (0x3F000000 :: 32 word) \<noteq> Inl Ill_formed \<and>
   read_le double_T [0, 0, 0, 0x3F] 0 = (Inl Ill_formed :: error + 32 word)"
  using codec_instantiation[of float_T "[0, 0, 0, 0x3F]" 0 "0x3F000000 :: 32 word"]
  by (simp add: float_T_def bit_width_eq)

text \<open>
  What holds of the bounds.  When the array holds at least \<open>byte_width T\<close> bytes from the
  offset on, \<open>read_le\<close> (integral or 32-bit floating point) returns a value and never
  leaves the array; its result is the one it gives on the \<open>byte_width T\<close> bytes alone,
  so that no other element is read.  For an integral type \<open>write_le\<close> returns an array
  of the same length that differs from the old one inside these \<open>byte_width T\<close>
  elements only.
\<close>

lemma codec_in_bounds:
  fixes v :: "'a::len word"
  assumes sup: "category T = Integral \<or> (category T = Floating_point \<and> bit_width T = 32)"
    and inb: "off + byte_width T \<le> length buffer"
  shows "(\<exists>r :: 'a word. read_le T buffer off = Inr r) \<and>
     read_le T buffer off =
       (read_le T (take (byte_width T) (drop off buffer)) 0 :: error + 'a word) \<and>
     (category T = Integral \<longrightarrow>
        (\<exists>buf'. write_le T buffer off v = Inr buf' \<and> length buf' = length buffer \<and>
           (\<forall>j < length buffer. j < off \<or> off + byte_width T \<le> j \<longrightarrow> buf' ! j = buffer ! j)))"
proof -
  define U where "U = (if category T = Integral then T else uint32_T)"
  have rd: "read_le T b k = (read_le_integral U b k :: error + 'a word)"
    and bw: "byte_width U = byte_width T" for b k
    using sup floating_as_uint32(2,3)[of T] integral_as_integral(2)[of T]
    by (auto simp add: U_def)
  have inb': "off + byte_width U \<le> length buffer" using inb bw by simp
  have "\<exists>r :: 'a word. read_le_integral U buffer off = Inr r"
    using read_le_integral_Inr[OF inb'] by blast
  moreover have "read_le_integral U buffer off =
      (read_le_integral U (take (byte_width U) (drop off buffer)) 0 :: error + 'a word)"
    by (rule read_le_integral_prefix[OF inb'])
  moreover have "\<exists>buf'. write_le T buffer off v = Inr buf' \<and> length buf' = length buffer \<and>
        (\<forall>j < length buffer. j < off \<or> off + byte_width T \<le> j \<longrightarrow> buf' ! j = buffer ! j)"
    if int: "category T = Integral"
  proof -
    from write_le_integral_Inr[OF inb, of v]
    obtain buf' where w: "write_le_integral T buffer off v = Inr buf'"
      and l: "length buf' = length buffer"
      and n: "\<And>j. j < length buffer \<Longrightarrow> buf' ! j =
        (if off \<le> j \<and> j < off + byte_width T
         then ucast (shift_right T v (8 * (j - off)) AND 0xff) else buffer ! j)"
      by blast
    have "buf' ! j = buffer ! j" if "j < length buffer" "j < off \<or> off + byte_width T \<le> j" for j
      using n[of j] that by auto
    with w l show ?thesis by (auto simp add: integral_as_integral(1)[OF int])
  qed
  ultimately show ?thesis unfolding rd bw by blast
qed

lemma codec_in_bounds_example:
  "read_le uint16_T [0xE8, 0x03] 0 = Inr (1000 :: uint16_t) \<and>
   write_le uint16_T [0xE8, 0x03] 0 (5 :: uint16_t) = Inr [5, 0] \<and>
   read_le uint16_T [0xE8] 0 = (Inl Out_of_bounds :: error + uint16_t) \<and>
   write_le uint16_T [0xE8] 0 (5 :: uint16_t) = Inl Out_of_bounds"
  by (simp add: codec_eval uint16_T_def)


section \<open>Frames\<close>

lemma length_little_endian [simp]: "length (little_endian n v) = n"
  by (simp add: little_endian_def)

lemma nth_little_endian [simp]: "i < n \<Longrightarrow> little_endian n v ! i = ucast (drop_bit (8 * i) v)"
  by (simp add: little_endian_def)

lemma little_endian_2: "little_endian 2 v = [ucast v, ucast (drop_bit 8 v)]"
  by (simp add: little_endian_def upt_rec numeral_2_eq_2)

lemma write_le_eq:
  fixes val :: "'a::len word"
  assumes int: "category T = Integral"
    and len: "LENGTH('a) = bit_width T"
    and inb: "off + byte_width T \<le> length buffer"
  shows "write_le T buffer off val =
         Inr (take off buffer @ little_endian (byte_width T) val @ drop (off + byte_width T) buffer)"
proof -
  from write_le_bytes_integral[OF int len inb, of val]
  obtain buf' where w: "write_le T buffer off val = Inr buf'"
    and l: "length buf' = length buffer"
    and b: "\<And>i. i < byte_width T \<Longrightarrow> buf' ! (off + i) = ucast (drop_bit (8 * i) val)"
    and o: "\<And>j. j < length buffer \<Longrightarrow> j < off \<or> off + byte_width T \<le> j \<Longrightarrow> buf' ! j = buffer ! j"
    by blast
  let ?r = "take off buffer @ little_endian (byte_width T) val @ drop (off + byte_width T) buffer"
  have "buf' = ?r"
  proof (rule nth_equalityI)
    show "length buf' = length ?r" using l inb by simp
  next
    fix j assume "j < length buf'"
    then have j: "j < length buffer" using l by simp
    consider "j < off" | "off \<le> j" "j < off + byte_width T" | "off + byte_width T \<le> j"
      by linarith
    then show "buf' ! j = ?r ! j"
    proof cases
      case 1
      then show ?thesis using o[OF j] inb by (simp add: nth_append)
    next
      case 2
      then have "buf' ! j = ucast (drop_bit (8 * (j - off)) val)"
        using b[of "j - off"] by simp
      moreover have "j - off < byte_width T" using 2 by arith
      ultimately show ?thesis using 2 inb by (simp add: nth_append)
    next
      case 3
      moreover have "\<not> j - off < byte_width T" "\<not> j < off" using 3 by arith+
      moreover have "off + byte_width T + (j - off - byte_width T) = j" using 3 by arith
      ultimately show ?thesis using o[OF j] inb j by (simp add: nth_append)
    qed
  qed
  with w show ?thesis by simp
qed

lemma read_le_eq:
  fixes val :: "'a::len word"
  assumes sup: "category T = Integral \<or> (category T = Floating_point \<and> bit_width T = 32)"
    and len: "LENGTH('a) = bit_width T"
    and off: "off = length pre"
  shows "read_le T (pre @ little_endian (byte_width T) val @ post) off = Inr val"
proof (rule read_le_bytes_supported[OF sup len])
  show "off + byte_width T \<le> length (pre @ little_endian (byte_width T) val @ post)"
    using off by simp
next
  fix i assume "i < byte_width T"
  then show "(pre @ little_endian (byte_width T) val @ post) ! (off + i) = ucast (drop_bit (8 * i) val)"
    using off by (simp add: nth_append)
qed

lemma uint16_supported:
  "category uint16_T = Integral \<or> (category uint16_T = Floating_point \<and> bit_width uint16_T = 32)"
  by simp

lemma decode_frame_id:
  "read_le uint16_T (little_endian 2 (pid :: uint16_t) @ rest) 0 = Inr pid"
  using read_le_eq[OF uint16_supported, of 0 "[]" pid rest] by simp

lemma decode_frame_crc:
  assumes "length pre = k"
  shows "read_le uint16_T (pre @ little_endian 2 (crc :: uint16_t)) k = Inr crc"
  using read_le_eq[OF uint16_supported, of k pre crc "[]"] assms by simp

lemma length_local_array [simp]: "length (local_array m n) = n"
  by (simp add: local_array_def)

lemma write_uint16_front:
  assumes "2 \<le> length arr"
  shows "write_le uint16_T arr 0 (pid :: uint16_t) = Inr (little_endian 2 pid @ drop 2 arr)"
proof -
  have "write_le uint16_T arr 0 pid =
      Inr (take 0 arr @ little_endian (byte_width uint16_T) pid @ drop (0 + byte_width uint16_T) arr)"
  proof (rule write_le_eq)
    show "0 + byte_width uint16_T \<le> length arr"
      using assms by (simp only: uint16_T_facts add_0)
  qed simp_all
  then show ?thesis by (simp only: uint16_T_facts take_0 append_Nil add_0)
qed

lemma write_uint16_back:
  assumes "length pre = k" "length post = 2"
  shows "write_le uint16_T (pre @ post) k (crc :: uint16_t) = Inr (pre @ little_endian 2 crc)"
proof -
  have "write_le uint16_T (pre @ post) k crc =
      Inr (take k (pre @ post) @ little_endian (byte_width uint16_T) crc @
           drop (k + byte_width uint16_T) (pre @ post))"
    by (rule write_le_eq) (simp_all add: assms)
  moreover have "take k (pre @ post) = pre" "drop (k + 2) (pre @ post) = []"
    using assms by simp_all
  ultimately show ?thesis by (simp only: uint16_T_facts append_Nil2)
qed

lemma write_value_middle:
  fixes val :: "'a::len word"
  assumes int: "category T = Integral"
    and len: "LENGTH('a) = bit_width T"
    and "length pre = k" "byte_width T \<le> length post"
  shows "write_le T (pre @ post) k val =
         Inr (pre @ little_endian (byte_width T) val @ drop (byte_width T) post)"
proof -
  have "write_le T (pre @ post) k val =
      Inr (take k (pre @ post) @ little_endian (byte_width T) val @
           drop (k + byte_width T) (pre @ post))"
    by (rule write_le_eq[OF int len]) (simp add: assms(3,4))
  moreover have "take k (pre @ post) = pre" "drop (k + byte_width T) (pre @ post) = drop (byte_width T) post"
    using assms(3) by simp_all
  ultimately show ?thesis by (simp only:)
qed

lemma read_frame:
  "\<exists>tx1. write_le uint16_T (local_array m 4) 0 (pid :: uint16_t) = Inr tx1 \<and>
     write_le uint16_T tx1 (length tx1 - 2) (crc :: uint16_t) =
       Inr (little_endian 2 pid @ little_endian 2 crc)"
proof -
  let ?tx1 = "little_endian 2 pid @ drop 2 (local_array m 4)"
  have 1: "write_le uint16_T (local_array m 4) 0 pid = Inr ?tx1"
    by (rule write_uint16_front) simp
  have "write_le uint16_T ?tx1 2 crc = Inr (little_endian 2 pid @ little_endian 2 crc)"
    by (rule write_uint16_back) simp_all
  moreover have "length ?tx1 - 2 = 2" by simp
  ultimately show ?thesis using 1 by simp
qed

lemma write_frame:
  fixes val :: "'a::len word"
  assumes int: "category T = Integral"
    and len: "LENGTH('a) = bit_width T"
  shows "\<exists>tx1 tx2. write_le uint16_T (local_array m (4 + byte_width T)) 0 (pid :: uint16_t) = Inr tx1 \<and>
     write_le T tx1 2 val = Inr tx2 \<and>
     write_le uint16_T tx2 (length tx2 - 2) (crc :: uint16_t) =
       Inr (little_endian 2 pid @ little_endian (byte_width T) val @ little_endian 2 crc)"
proof -
  let ?arr = "local_array m (4 + byte_width T)"
  let ?tx1 = "little_endian 2 pid @ drop 2 ?arr"
  let ?tx2 = "little_endian 2 pid @ little_endian (byte_width T) val @ drop (byte_width T) (drop 2 ?arr)"
  have 1: "write_le uint16_T ?arr 0 pid = Inr ?tx1"
    by (rule write_uint16_front) simp
  have 2: "write_le T ?tx1 2 val = Inr ?tx2"
    by (rule write_value_middle[OF int len]) simp_all
  have "write_le uint16_T ((little_endian 2 pid @ little_endian (byte_width T) val) @
            drop (byte_width T) (drop 2 ?arr)) (2 + byte_width T) crc =
        Inr ((little_endian 2 pid @ little_endian (byte_width T) val) @ little_endian 2 crc)"
    by (rule write_uint16_back) simp_all
  moreover have "length ?tx2 - 2 = 2 + byte_width T" by simp
  ultimately have 3: "write_le uint16_T ?tx2 (length ?tx2 - 2) crc =
       Inr (little_endian 2 pid @ little_endian (byte_width T) val @ little_endian 2 crc)"
    by simp
  from 1 2 3 show ?thesis by blast
qed

section \<open>The two property functions\<close>

lemma read_property_unfold:
  fixes val :: "'a::len word option"
  assumes inst: "instantiates (endpoint_type_t cat IPropertyId)"
  shows "read_property cat IPropertyId m num val =
    (let T = endpoint_type_t cat IPropertyId;
         req = \<lparr>slave_addr = bus_address num,
                tx_buffer = Some (little_endian 2 (word_of_int IPropertyId :: uint16_t) @
                                  little_endian 2 (json_crc cat)),
                tx_length = 4,
                rx_buffer = Some (local_array m (byte_width T)),
                rx_length = byte_width T\<rparr>;
         m' = m\<lparr>transactions := transactions m @ [req]\<rparr>
     in if \<not> fst (device m req) then Inr (False, val, m')
        else case val of
               None \<Rightarrow> Inr (True, None, m')
             | Some _ \<Rightarrow>
                 (case read_le T (snd (device m req)) 0 of
                    Inl e \<Rightarrow> Inl e
                  | Inr v \<Rightarrow> Inr (True, Some v, m')))"
proof -
  obtain tx1 where 1: "write_le uint16_T (local_array m 4) 0 (word_of_int IPropertyId :: uint16_t) = Inr tx1"
    and 2: "write_le uint16_T tx1 (length tx1 - 2) (json_crc cat) =
       Inr (little_endian 2 (word_of_int IPropertyId :: uint16_t) @ little_endian 2 (json_crc cat))"
    using read_frame by blast
  show ?thesis
    using inst
    by (cases val)
      (simp_all add: read_property_def 1 2 I2C_transaction_def Let_def cong: sum.case_cong)
qed

lemma write_property_unfold:
  fixes val :: "'a::len word"
  assumes int: "category (endpoint_type_t cat IPropertyId) = Integral"
    and len: "LENGTH('a) = bit_width (endpoint_type_t cat IPropertyId)"
  shows "write_property cat IPropertyId m num val =
    (let T = endpoint_type_t cat IPropertyId;
         req = \<lparr>slave_addr = bus_address num,
                tx_buffer = Some (little_endian 2 (word_of_int IPropertyId :: uint16_t) @
                                  little_endian (byte_width T) val @
                                  little_endian 2 (json_crc cat)),
                tx_length = 4 + byte_width T,
                rx_buffer = None,
                rx_length = 0\<rparr>
     in Inr (fst (device m req), m\<lparr>transactions := transactions m @ [req]\<rparr>))"
proof -
  let ?T = "endpoint_type_t cat IPropertyId"
  obtain tx1 tx2 where
    "write_le uint16_T (local_array m (4 + byte_width ?T)) 0 (word_of_int IPropertyId :: uint16_t) = Inr tx1"
    "write_le ?T tx1 2 val = Inr tx2"
    "write_le uint16_T tx2 (length tx2 - 2) (json_crc cat) =
       Inr (little_endian 2 (word_of_int IPropertyId :: uint16_t) @
            little_endian (byte_width ?T) val @ little_endian 2 (json_crc cat))"
    using write_frame[OF int len] by blast
  moreover define frame where "frame = little_endian 2 (word_of_int IPropertyId :: uint16_t) @
            little_endian (byte_width ?T) val @ little_endian 2 (json_crc cat)"
  moreover have "length frame = 4 + byte_width ?T" by (simp add: frame_def)
  ultimately show ?thesis
    unfolding frame_def[symmetric]
    by (simp add: write_property_def I2C_transaction_def Let_def) (simp add: frame_def)
qed

lemma write_property_floating_no_return:
  fixes val :: "'a::len word"
  assumes f: "category (endpoint_type_t cat IPropertyId) = Floating_point"
    "bit_width (endpoint_type_t cat IPropertyId) = 32"
  shows "write_property cat IPropertyId m num val = Inl No_return"
proof -
  let ?T = "endpoint_type_t cat IPropertyId"
  let ?arr = "local_array m (4 + byte_width ?T)"
  let ?tx1 = "little_endian 2 (word_of_int IPropertyId :: uint16_t) @ drop 2 ?arr"
  have 1: "write_le uint16_T ?arr 0 (word_of_int IPropertyId :: uint16_t) = Inr ?tx1"
    by (rule write_uint16_front) simp
  have "2 + byte_width ?T \<le> length ?tx1" by simp
  from write_le_floating_no_return[OF f this]
  have 2: "write_le ?T ?tx1 2 val = Inl No_return" .
  show ?thesis by (simp add: write_property_def Let_def 1 2)
qed

lemma read_property_result:
  fixes val :: "'a::len word option"
  assumes sup: "category (endpoint_type_t cat IPropertyId) = Integral \<or>
      (category (endpoint_type_t cat IPropertyId) = Floating_point \<and>
       bit_width (endpoint_type_t cat IPropertyId) = 32)"
    and req: "req = \<lparr>slave_addr = bus_address num,
                tx_buffer = Some (little_endian 2 (word_of_int IPropertyId :: uint16_t) @
                                  little_endian 2 (json_crc cat)),
                tx_length = 4,
                rx_buffer = Some (local_array m (byte_width (endpoint_type_t cat IPropertyId))),
                rx_length = byte_width (endpoint_type_t cat IPropertyId)\<rparr>"
    and m': "m' = m\<lparr>transactions := transactions m @ [req]\<rparr>"
  shows "\<not> fst (device m req) \<Longrightarrow> read_property cat IPropertyId m num val = Inr (False, val, m')"
    and "val = None \<Longrightarrow> read_property cat IPropertyId m num val = Inr (fst (device m req), None, m')"
    and "length (snd (device m req)) = rx_length req \<Longrightarrow>
         \<exists>v. read_property cat IPropertyId m num val = Inr (fst (device m req), v, m')"
proof -
  have inst: "instantiates (endpoint_type_t cat IPropertyId)"
    using sup by (simp add: instantiates_iff)
  note unf = read_property_unfold[OF inst, of m num val, unfolded Let_def, folded req, folded m']
  show "\<not> fst (device m req) \<Longrightarrow> read_property cat IPropertyId m num val = Inr (False, val, m')"
    by (simp add: unf)
  show "val = None \<Longrightarrow> read_property cat IPropertyId m num val = Inr (fst (device m req), None, m')"
    using unf by (cases "fst (device m req)") simp_all
  show "\<exists>v. read_property cat IPropertyId m num val = Inr (fst (device m req), v, m')"
    if c: "length (snd (device m req)) = rx_length req"
  proof -
    have "0 + byte_width (endpoint_type_t cat IPropertyId) \<le> length (snd (device m req))"
      using c by (simp add: req)
    from read_le_supported_Inr[OF sup this]
    obtain r :: "'a word" where
      "read_le (endpoint_type_t cat IPropertyId) (snd (device m req)) 0 = Inr r" by blast
    then show ?thesis using unf by (cases val; cases "fst (device m req)") simp_all
  qed
qed

lemma read_property_call:
  fixes val :: "'a::len word option"
  assumes sup: "category (endpoint_type_t cat IPropertyId) = Integral \<or>
      (category (endpoint_type_t cat IPropertyId) = Floating_point \<and>
       bit_width (endpoint_type_t cat IPropertyId) = 32)"
    and contract: "\<And>r. length (snd (device m r)) = rx_length r"
  shows "\<exists>ok v req. read_property cat IPropertyId m num val =
            Inr (ok, v, m\<lparr>transactions := transactions m @ [req]\<rparr>) \<and>
          slave_addr req = bus_address num"
proof -
  define req where "req = \<lparr>slave_addr = bus_address num,
                tx_buffer = Some (little_endian 2 (word_of_int IPropertyId :: uint16_t) @
                                  little_endian 2 (json_crc cat)),
                tx_length = 4,
                rx_buffer = Some (local_array m (byte_width (endpoint_type_t cat IPropertyId))),
                rx_length = byte_width (endpoint_type_t cat IPropertyId)\<rparr>"
  from read_property_result(3)[where val=val, OF sup req_def refl contract]
  obtain v where "read_property cat IPropertyId m num val =
      Inr (fst (device m req), v, m\<lparr>transactions := transactions m @ [req]\<rparr>)" by blast
  moreover have "slave_addr req = bus_address num" by (simp add: req_def)
  ultimately show ?thesis by blast
qed

lemma write_property_call:
  fixes w :: "'a::len word"
  assumes int: "category (endpoint_type_t cat IPropertyId) = Integral"
    and len: "LENGTH('a) = bit_width (endpoint_type_t cat IPropertyId)"
  shows "\<exists>ok req. write_property cat IPropertyId m num w =
            Inr (ok, m\<lparr>transactions := transactions m @ [req]\<rparr>) \<and>
          slave_addr req = bus_address num"
  unfolding write_property_unfold[OF int len] Let_def
  by (intro exI conjI, rule refl) simp

lemma bus_address_eq: "bus_address num = i2c_addr + num"
  by (simp add: bus_address_def)

lemma i2c_addr_eq: "i2c_addr = 0x68"
  by (simp add: i2c_addr_def)

lemma unat_bus_address: "unat (bus_address num) = (0x68 + unat num) mod 256"
  by (simp add: bus_address_eq i2c_addr_eq unat_word_ariths)

section \<open>Evaluation on the example machine\<close>

lemma byte_numerals: "(39744 :: uint8_t) = 0x40" "(1000 :: uint8_t) = 0xE8"
  by simp_all

lemma demo_eval:
  "endpoint_type_t demo_catalog 5 = uint16_T"
  "json_crc demo_catalog = 0x9B40"
  "device demo_machine = demo_device"
  "transactions demo_machine = []"
  "local_array demo_machine 2 = [0xAA, 0xAA]"
  by (simp_all add: demo_catalog_def demo_machine_def local_array_def upt_rec numeral_2_eq_2)

lemma demo_contract: "length (snd (demo_device r)) = rx_length r"
  by (simp add: demo_device_def)

lemma read_1000: "read_le uint16_T [0xE8, 0x03] 0 = Inr (1000 :: uint16_t)"
  by (simp add: codec_eval uint16_T_def)

section \<open>Properties of the transactions\<close>

text \<open>
  What holds of the frame.  For a property of an integral type \<open>write_property\<close>
  hands the primitive a frame of \<open>4 + byte_width T\<close>
  bytes: the property id in little-endian order in bytes 0 and 1, the value in the
  next \<open>byte_width T\<close> bytes, and \<^verbatim>\<open>json_crc\<close> in little-endian order in the last two
  bytes.  Reading the three parts back with \<open>read_le\<close> gives the id, the value and the
  checksum.  The id is the template argument converted to \<^verbatim>\<open>uint16_t\<close>, which is the
  argument itself when it lies between 0 and 65535.
\<close>

lemma write_property_frame_integral:
  fixes val :: "'a::len word"
  assumes T: "T = endpoint_type_t cat IPropertyId"
    and int: "category T = Integral"
    and len: "LENGTH('a) = bit_width T"
    and pid: "pid = (word_of_int IPropertyId :: uint16_t)"
    and frame: "frame = little_endian 2 pid @ little_endian (byte_width T) val @
                        little_endian 2 (json_crc cat)"
    and req: "req = \<lparr>slave_addr = bus_address num, tx_buffer = Some frame,
                      tx_length = 4 + byte_width T, rx_buffer = None, rx_length = 0\<rparr>"
  shows "write_property cat IPropertyId m num val =
           Inr (fst (device m req), m\<lparr>transactions := transactions m @ [req]\<rparr>) \<and>
         length frame = 4 + byte_width T \<and>
         take 2 frame = [ucast pid, ucast (drop_bit 8 pid)] \<and>
         drop (2 + byte_width T) frame =
           [ucast (json_crc cat), ucast (drop_bit 8 (json_crc cat))] \<and>
         read_le uint16_T frame 0 = Inr pid \<and>
         read_le T frame 2 = Inr val \<and>
         read_le uint16_T frame (2 + byte_width T) = Inr (json_crc cat) \<and>
         (0 \<le> IPropertyId \<and> IPropertyId < 65536 \<longrightarrow> uint pid = IPropertyId)"
proof -
  have 1: "write_property cat IPropertyId m num val =
           Inr (fst (device m req), m\<lparr>transactions := transactions m @ [req]\<rparr>)"
    using write_property_unfold[where cat=cat and IPropertyId=IPropertyId and val=val
        and m=m and num=num] int len
    unfolding T req frame pid by (simp add: Let_def)
  have 2: "length frame = 4 + byte_width T" by (simp add: frame)
  have 3: "take 2 frame = [ucast pid, ucast (drop_bit 8 pid)]"
    by (simp add: frame little_endian_2)
  have 4: "drop (2 + byte_width T) frame =
           [ucast (json_crc cat), ucast (drop_bit 8 (json_crc cat))]"
    by (simp add: frame little_endian_2)
  have 5: "read_le uint16_T frame 0 = Inr pid"
    unfolding frame by (rule decode_frame_id)
  have 6: "read_le T frame 2 = Inr val"
    unfolding frame by (rule read_le_eq[OF disjI1[OF int] len]) simp
  have "read_le uint16_T ((little_endian 2 pid @ little_endian (byte_width T) val) @
            little_endian 2 (json_crc cat)) (2 + byte_width T) = Inr (json_crc cat)"
    by (rule decode_frame_crc) simp
  then have 7: "read_le uint16_T frame (2 + byte_width T) = Inr (json_crc cat)"
    by (simp add: frame)
  have 8: "0 \<le> IPropertyId \<and> IPropertyId < 65536 \<longrightarrow> uint pid = IPropertyId"
    by (simp add: pid uint_word_of_int take_bit_eq_mod)
  from 1 2 3 4 5 6 7 8 show ?thesis by simp
qed

lemma write_property_frame_example:
  "write_property demo_catalog 5 demo_machine 4 (1000 :: uint16_t) =
     Inr (True, demo_machine\<lparr>transactions :=
       [\<lparr>slave_addr = 0x6C, tx_buffer = Some [5, 0, 0xE8, 0x03, 0x40, 0x9B], tx_length = 6,
         rx_buffer = None, rx_length = 0\<rparr>]\<rparr>) \<and>
   read_le uint16_T [5, 0, 0xE8, 0x03, 0x40, 0x9B] 0 = Inr (5 :: uint16_t) \<and>
   read_le uint16_T [5, 0, 0xE8, 0x03, 0x40, 0x9B] 2 = Inr (1000 :: uint16_t) \<and>
   read_le uint16_T [5, 0, 0xE8, 0x03, 0x40, 0x9B] 4 = Inr (0x9B40 :: uint16_t)"
  using write_property_frame_integral[where T=uint16_T and cat=demo_catalog and IPropertyId=5
      and val="1000 :: uint16_t" and m=demo_machine and num=4, OF _ _ _ refl refl refl]
  by (simp add: demo_eval little_endian_2 bus_address_eq i2c_addr_eq demo_device_def
        byte_numerals)

text \<open>
  Claim C4 on the code.  The claim is about every property and every value of its type,
  and the example of the header writes a floating-point property.  For a property of a
  floating-point type \<open>write_property\<close> calls the floating-point overload of
  \<open>write_le\<close>, which does not return: no frame is built to the end and the primitive
  is not called.  Property 7 of the example catalog is a \<^verbatim>\<open>float\<close>, and the value is
  \<open>10000.0\<close>.
\<close>

theorem write_property_float_sends_no_frame:
  "write_property demo_catalog 7 demo_machine 4 (0x461C4000 :: 32 word) = Inl No_return"
  using write_property_floating_no_return[of demo_catalog 7 demo_machine 4 "0x461C4000 :: 32 word"]
  by (simp add: demo_catalog_def float_T_def bit_width_eq)

text \<open>
  Claim C5.  \<open>read_property\<close> hands the primitive a frame of exactly 4 bytes, the
  property id in little-endian order followed by \<^verbatim>\<open>json_crc\<close> in little-endian order,
  and a receive array of \<open>byte_width T\<close> bytes with the receive length \<open>byte_width T\<close>.
  The primitive is assumed to leave the receive array at its length.
\<close>

theorem read_property_request:
  fixes val :: "'a::len word option"
  assumes T: "T = endpoint_type_t cat IPropertyId"
    and sup: "category T = Integral \<or> (category T = Floating_point \<and> bit_width T = 32)"
    and pid: "pid = (word_of_int IPropertyId :: uint16_t)"
    and frame: "frame = little_endian 2 pid @ little_endian 2 (json_crc cat)"
    and req: "req = \<lparr>slave_addr = bus_address num, tx_buffer = Some frame, tx_length = 4,
                      rx_buffer = Some (local_array m (byte_width T)),
                      rx_length = byte_width T\<rparr>"
    and contract: "length (snd (device m req)) = rx_length req"
  shows "(\<exists>v. read_property cat IPropertyId m num val =
              Inr (fst (device m req), v, m\<lparr>transactions := transactions m @ [req]\<rparr>)) \<and>
         frame = [ucast pid, ucast (drop_bit 8 pid),
                  ucast (json_crc cat), ucast (drop_bit 8 (json_crc cat))] \<and>
         read_le uint16_T frame 0 = Inr pid \<and>
         read_le uint16_T frame 2 = Inr (json_crc cat) \<and>
         length (local_array m (byte_width T)) = byte_width T"
proof -
  have inst: "instantiates (endpoint_type_t cat IPropertyId)"
    using sup by (simp add: instantiates_iff T)
  have "0 + byte_width T \<le> length (snd (device m req))"
    using contract by (simp add: req)
  from read_le_supported_Inr[OF sup this]
  obtain r :: "'a word" where r: "read_le T (snd (device m req)) 0 = Inr r" by blast
  have 1: "\<exists>v. read_property cat IPropertyId m num val =
              Inr (fst (device m req), v, m\<lparr>transactions := transactions m @ [req]\<rparr>)"
    using r unfolding read_property_unfold[OF inst] T req frame pid
    by (cases val) (simp_all add: Let_def)
  have 2: "frame = [ucast pid, ucast (drop_bit 8 pid),
                  ucast (json_crc cat), ucast (drop_bit 8 (json_crc cat))]"
    by (simp add: frame little_endian_2)
  have 3: "read_le uint16_T frame 0 = Inr pid"
    unfolding frame by (rule decode_frame_id)
  have 4: "read_le uint16_T frame 2 = Inr (json_crc cat)"
    unfolding frame by (rule decode_frame_crc) simp
  from 1 2 3 4 show ?thesis by simp
qed

theorem read_property_request_witness:
  "read_property demo_catalog 5 demo_machine 4 (Some (0 :: uint16_t)) =
     Inr (True, Some 1000, demo_machine\<lparr>transactions :=
       [\<lparr>slave_addr = 0x6C, tx_buffer = Some [5, 0, 0x40, 0x9B], tx_length = 4,
         rx_buffer = Some [0xAA, 0xAA], rx_length = 2\<rparr>]\<rparr>)"
proof -
  have "\<exists>v. read_property demo_catalog 5 demo_machine 4 (Some (0 :: uint16_t)) =
     Inr (True, v, demo_machine\<lparr>transactions :=
       [\<lparr>slave_addr = 0x6C, tx_buffer = Some [5, 0, 0x40, 0x9B], tx_length = 4,
         rx_buffer = Some [0xAA, 0xAA], rx_length = 2\<rparr>]\<rparr>)"
    using read_property_request[where T=uint16_T and cat=demo_catalog and IPropertyId=5
      and val="Some (0 :: uint16_t)" and m=demo_machine and num=4, OF _ _ refl refl refl]
    by (simp add: demo_eval little_endian_2 bus_address_eq i2c_addr_eq demo_device_def
        byte_numerals)
  moreover have "read_property demo_catalog 5 demo_machine 4 (Some (0 :: uint16_t)) =
     Inr (True, v, m') \<Longrightarrow> v = Some 1000" for v m'
    by (simp add: read_property_unfold instantiates_iff demo_eval Let_def demo_device_def
        bus_address_eq i2c_addr_eq read_1000)
  ultimately show ?thesis by blast
qed

text \<open>
  What holds of the returned flag.  When the primitive returns false, \<open>read_property\<close> returns false and the
  object behind the value pointer is what it was.  \<open>read_property\<close> returns the flag of
  the primitive (true exactly when the primitive succeeds), and for a property of an
  integral type \<open>write_property\<close> returns the flag of the primitive as it is.
\<close>

lemma failure_propagation_integral:
  fixes val :: "'a::len word option" and w :: "'a word"
  assumes T: "T = endpoint_type_t cat IPropertyId"
    and sup: "category T = Integral \<or> (category T = Floating_point \<and> bit_width T = 32)"
    and len: "LENGTH('a) = bit_width T"
    and pid: "pid = (word_of_int IPropertyId :: uint16_t)"
    and rreq: "rreq = \<lparr>slave_addr = bus_address num,
                  tx_buffer = Some (little_endian 2 pid @ little_endian 2 (json_crc cat)),
                  tx_length = 4, rx_buffer = Some (local_array m (byte_width T)),
                  rx_length = byte_width T\<rparr>"
    and wreq: "wreq = \<lparr>slave_addr = bus_address num,
                  tx_buffer = Some (little_endian 2 pid @ little_endian (byte_width T) w @
                                    little_endian 2 (json_crc cat)),
                  tx_length = 4 + byte_width T, rx_buffer = None, rx_length = 0\<rparr>"
  shows "(\<not> fst (device m rreq) \<longrightarrow>
            read_property cat IPropertyId m num val =
              Inr (False, val, m\<lparr>transactions := transactions m @ [rreq]\<rparr>)) \<and>
         (length (snd (device m rreq)) = rx_length rreq \<longrightarrow>
            (\<exists>v. read_property cat IPropertyId m num val =
              Inr (fst (device m rreq), v, m\<lparr>transactions := transactions m @ [rreq]\<rparr>))) \<and>
         (category T = Integral \<longrightarrow>
            write_property cat IPropertyId m num w =
              Inr (fst (device m wreq), m\<lparr>transactions := transactions m @ [wreq]\<rparr>))"
proof -
  note r = read_property_result[where val=val, OF sup[unfolded T] rreq[unfolded T pid] refl]
  have "write_property cat IPropertyId m num w =
           Inr (fst (device m wreq), m\<lparr>transactions := transactions m @ [wreq]\<rparr>)"
    if "category T = Integral"
    using write_property_unfold[where cat=cat and IPropertyId=IPropertyId and val=w
        and m=m and num=num] that len
    unfolding T wreq pid by (simp add: Let_def)
  with r(1) r(3) show ?thesis by blast
qed

lemma failure_propagation_example:
  "read_property demo_catalog 5 demo_machine 0 (Some (7 :: uint16_t)) =
     Inr (False, Some 7, demo_machine\<lparr>transactions :=
       [\<lparr>slave_addr = 0x68, tx_buffer = Some [5, 0, 0x40, 0x9B], tx_length = 4,
         rx_buffer = Some [0xAA, 0xAA], rx_length = 2\<rparr>]\<rparr>) \<and>
   write_property demo_catalog 5 demo_machine 0 (1000 :: uint16_t) =
     Inr (False, demo_machine\<lparr>transactions :=
       [\<lparr>slave_addr = 0x68, tx_buffer = Some [5, 0, 0xE8, 0x03, 0x40, 0x9B], tx_length = 6,
         rx_buffer = None, rx_length = 0\<rparr>]\<rparr>)"
  using failure_propagation_integral[where T=uint16_T and cat=demo_catalog and IPropertyId=5
      and val="Some (7 :: uint16_t)" and w="1000 :: uint16_t" and m=demo_machine and num=0,
      OF _ _ _ refl refl refl]
  by (simp add: demo_eval little_endian_2 bus_address_eq i2c_addr_eq demo_device_def
        byte_numerals)

text \<open>
  Claim C6 on the code.  The claim says that \<open>write_property\<close> always returns the flag
  of the primitive.  For a property of a floating-point type the call does not return
  and the primitive is not called, at an address where it would fail (index 0) as at
  one where it would succeed (index 4).
\<close>

theorem write_property_float_returns_no_flag:
  "write_property demo_catalog 7 demo_machine 0 (0x461C4000 :: 32 word) = Inl No_return \<and>
   write_property demo_catalog 7 demo_machine 4 (0x461C4000 :: 32 word) = Inl No_return \<and>
   fst (demo_device \<lparr>slave_addr = 0x68, tx_buffer = None, tx_length = 0,
                      rx_buffer = None, rx_length = 0\<rparr>) = False \<and>
   fst (demo_device \<lparr>slave_addr = 0x6C, tx_buffer = None, tx_length = 0,
                      rx_buffer = None, rx_length = 0\<rparr>) = True"
  using write_property_floating_no_return[of demo_catalog 7 demo_machine 0 "0x461C4000 :: 32 word"]
    write_property_floating_no_return[of demo_catalog 7 demo_machine 4 "0x461C4000 :: 32 word"]
  by (simp add: demo_catalog_def demo_device_def float_T_def bit_width_eq)

text \<open>
  Claim C9.  With a null value pointer \<open>read_property\<close> builds the same request, makes
  the same transaction with the receive length \<open>byte_width T\<close>, decodes nothing (the
  contents of the receive array play no part) and returns the flag of the primitive.
\<close>

theorem read_property_null_pointer:
  assumes T: "T = endpoint_type_t cat IPropertyId"
    and sup: "category T = Integral \<or> (category T = Floating_point \<and> bit_width T = 32)"
    and pid: "pid = (word_of_int IPropertyId :: uint16_t)"
    and req: "req = \<lparr>slave_addr = bus_address num,
                  tx_buffer = Some (little_endian 2 pid @ little_endian 2 (json_crc cat)),
                  tx_length = 4, rx_buffer = Some (local_array m (byte_width T)),
                  rx_length = byte_width T\<rparr>"
  shows "read_property cat IPropertyId m num (None :: 'a::len word option) =
           Inr (fst (device m req), None, m\<lparr>transactions := transactions m @ [req]\<rparr>)"
  using read_property_result(2)[where val="None :: 'a word option",
      OF sup[unfolded T] req[unfolded T pid] refl]
  by simp

theorem read_property_null_pointer_witness:
  "read_property demo_catalog 5 demo_machine 4 (None :: uint16_t option) =
     Inr (True, None, demo_machine\<lparr>transactions :=
       [\<lparr>slave_addr = 0x6C, tx_buffer = Some [5, 0, 0x40, 0x9B], tx_length = 4,
         rx_buffer = Some [0xAA, 0xAA], rx_length = 2\<rparr>]\<rparr>)"
  using read_property_null_pointer[where T=uint16_T and cat=demo_catalog and IPropertyId=5
      and m=demo_machine and num=4 and 'a=16, OF _ _ refl refl]
  by (simp add: demo_eval little_endian_2 bus_address_eq i2c_addr_eq demo_device_def
        byte_numerals)

text \<open>
  What holds of the address.  The address that \<open>read_property\<close> and, for a property
  of an integral type, \<open>write_property\<close> hand to the primitive is \<^verbatim>\<open>i2c_addr + num\<close> in \<^verbatim>\<open>uint8_t\<close> arithmetic, with
  \<^verbatim>\<open>i2c_addr = 0xD << 3 = 0x68\<close>.  For the device indices 0 to 7, and up to 23, this is the
  number \<open>0x68 + num\<close> and fits in 7 bits; index 4 gives \<open>0x6C\<close>.
\<close>

lemma bus_address_base_plus_index_integral:
  fixes val :: "'a::len word option" and w :: "'a word"
  assumes T: "T = endpoint_type_t cat IPropertyId"
    and sup: "category T = Integral \<or> (category T = Floating_point \<and> bit_width T = 32)"
    and len: "LENGTH('a) = bit_width T"
    and contract: "\<And>r. length (snd (device m r)) = rx_length r"
  shows "(\<exists>ok v req. read_property cat IPropertyId m num val =
            Inr (ok, v, m\<lparr>transactions := transactions m @ [req]\<rparr>) \<and>
            slave_addr req = i2c_addr + num) \<and>
         (category T = Integral \<longrightarrow>
            (\<exists>ok req. write_property cat IPropertyId m num w =
               Inr (ok, m\<lparr>transactions := transactions m @ [req]\<rparr>) \<and>
               slave_addr req = i2c_addr + num)) \<and>
         i2c_addr = push_bit 3 0xD \<and> i2c_addr = 0x68 \<and>
         (unat num < 24 \<longrightarrow>
            unat (i2c_addr + num) = 0x68 + unat num \<and> unat (i2c_addr + num) < 128) \<and>
         (num = 4 \<longrightarrow> i2c_addr + num = 0x6C)"
proof -
  note c = read_property_call[where val=val and num=num,
      OF sup[unfolded T] contract, unfolded bus_address_eq]
    write_property_call[where w=w and num=num and m=m,
      OF _ len[unfolded T], unfolded bus_address_eq, folded T]
  have "unat (i2c_addr + num) = (0x68 + unat num) mod 256"
    using unat_bus_address[of num] by (simp add: bus_address_eq)
  then have "unat num < 24 \<longrightarrow>
            unat (i2c_addr + num) = 0x68 + unat num \<and> unat (i2c_addr + num) < 128"
    by simp
  moreover have "i2c_addr = push_bit 3 0xD" "i2c_addr = 0x68" "num = 4 \<longrightarrow> i2c_addr + num = 0x6C"
    by (simp_all add: i2c_addr_eq)
  ultimately show ?thesis using c by blast
qed

lemma bus_address_base_plus_index_example:
  "(\<exists>ok v req. read_property demo_catalog 5 demo_machine 4 (Some (0 :: uint16_t)) =
            Inr (ok, v, demo_machine\<lparr>transactions := transactions demo_machine @ [req]\<rparr>) \<and>
            slave_addr req = 0x6C) \<and>
   (\<exists>ok req. write_property demo_catalog 5 demo_machine 4 (1000 :: uint16_t) =
            Inr (ok, demo_machine\<lparr>transactions := transactions demo_machine @ [req]\<rparr>) \<and>
            slave_addr req = 0x6C) \<and>
   unat (4 :: uint8_t) < 24 \<and> unat (i2c_addr + 4) = 0x68 + 4"
  using bus_address_base_plus_index_integral[where T=uint16_T and cat=demo_catalog and IPropertyId=5
      and val="Some (0 :: uint16_t)" and w="1000 :: uint16_t" and m=demo_machine and num=4]
  by (simp add: demo_eval demo_contract i2c_addr_eq)


text \<open>
  Claim C10, as the code has it.  No device index is refused: for every \<open>num\<close> the
  transaction of \<open>read_property\<close>, and that of \<open>write_property\<close> for a property of
  an integral type, is made at the address \<open>(0x68 + num) mod 2 ^ 8\<close>.  From index 8 on this
  is none of the eight addresses \<open>0x68\<close> to \<open>0x6F\<close>.  Up to index 151 the address is the
  plain sum; from index 24 to 151 it has bit 7 set, and only from index 152 on does the
  sum wrap around modulo 256.
\<close>

theorem device_index_not_validated:
  fixes val :: "'a::len word option" and w :: "'a word"
  assumes T: "T = endpoint_type_t cat IPropertyId"
    and sup: "category T = Integral \<or> (category T = Floating_point \<and> bit_width T = 32)"
    and len: "LENGTH('a) = bit_width T"
    and contract: "\<And>r. length (snd (device m r)) = rx_length r"
  shows "(\<exists>ok v req. read_property cat IPropertyId m num val =
            Inr (ok, v, m\<lparr>transactions := transactions m @ [req]\<rparr>) \<and>
            unat (slave_addr req) = (0x68 + unat num) mod 2 ^ 8) \<and>
         (category T = Integral \<longrightarrow>
            (\<exists>ok req. write_property cat IPropertyId m num w =
               Inr (ok, m\<lparr>transactions := transactions m @ [req]\<rparr>) \<and>
               unat (slave_addr req) = (0x68 + unat num) mod 2 ^ 8)) \<and>
         (8 \<le> unat num \<longrightarrow> (0x68 + unat num) mod 2 ^ 8 \<notin> {0x68 .. 0x6F}) \<and>
         (unat num < 152 \<longrightarrow> (0x68 + unat num) mod 2 ^ 8 = 0x68 + unat num) \<and>
         (24 \<le> unat num \<and> unat num < 152 \<longrightarrow> 128 \<le> (0x68 + unat num) mod 2 ^ 8) \<and>
         (152 \<le> unat num \<longrightarrow> (0x68 + unat num) mod 2 ^ 8 = 0x68 + unat num - 256)"
proof -
  note c = read_property_call[where val=val and num=num, OF sup[unfolded T] contract]
    write_property_call[where w=w and num=num and m=m, OF _ len[unfolded T], folded T]
  have u: "unat (bus_address num) = (0x68 + unat num) mod 2 ^ 8"
    using unat_bus_address[of num] by simp
  have r: "\<exists>ok v req. read_property cat IPropertyId m num val =
            Inr (ok, v, m\<lparr>transactions := transactions m @ [req]\<rparr>) \<and>
            unat (slave_addr req) = (0x68 + unat num) mod 2 ^ 8"
    using c(1) u by metis
  have w: "category T = Integral \<longrightarrow>
            (\<exists>ok req. write_property cat IPropertyId m num w =
               Inr (ok, m\<lparr>transactions := transactions m @ [req]\<rparr>) \<and>
               unat (slave_addr req) = (0x68 + unat num) mod 2 ^ 8)"
    using c(2) u by metis
  have b: "unat num < 256" using unsigned_less[of num, where 'a=nat] by simp
  have 1: "8 \<le> unat num \<longrightarrow> (0x68 + unat num) mod 2 ^ 8 \<notin> {0x68 .. 0x6F}"
    using b by (cases "unat num < 152") (auto simp add: mod_if)
  have 2: "unat num < 152 \<longrightarrow> (0x68 + unat num) mod 2 ^ 8 = 0x68 + unat num"
    by simp
  have 3: "24 \<le> unat num \<and> unat num < 152 \<longrightarrow> 128 \<le> (0x68 + unat num) mod 2 ^ 8"
    by simp
  have 4: "152 \<le> unat num \<longrightarrow> (0x68 + unat num) mod 2 ^ 8 = 0x68 + unat num - 256"
    using b by (auto simp add: mod_if)
  from r w 1 2 3 4 show ?thesis by blast
qed

theorem device_index_not_validated_witness:
  "(\<exists>ok req. write_property demo_catalog 5 demo_machine 30 (1000 :: uint16_t) =
            Inr (ok, demo_machine\<lparr>transactions := transactions demo_machine @ [req]\<rparr>) \<and>
            unat (slave_addr req) = 134) \<and>
   (\<exists>ok v req. read_property demo_catalog 5 demo_machine 200 (Some (0 :: uint16_t)) =
            Inr (ok, v, demo_machine\<lparr>transactions := transactions demo_machine @ [req]\<rparr>) \<and>
            unat (slave_addr req) = 48)"
  using device_index_not_validated[where T=uint16_T and cat=demo_catalog and IPropertyId=5
      and val="Some (0 :: uint16_t)" and w="1000 :: uint16_t" and m=demo_machine and num=30]
    device_index_not_validated[where T=uint16_T and cat=demo_catalog and IPropertyId=5
      and val="Some (0 :: uint16_t)" and w="1000 :: uint16_t" and m=demo_machine and num=200]
  by (simp add: demo_eval demo_contract)

text \<open>
  The claim as stated lets the sum wrap modulo 256 from index 24 on; at index 24 the
  address handed over is \<open>0x80\<close>, the plain sum.
\<close>

theorem index_24_does_not_wrap_counterexample:
  "write_property demo_catalog 5 demo_machine 24 (1000 :: uint16_t) =
     Inr (False, demo_machine\<lparr>transactions :=
       [\<lparr>slave_addr = 0x80, tx_buffer = Some [5, 0, 0xE8, 0x03, 0x40, 0x9B], tx_length = 6,
         rx_buffer = None, rx_length = 0\<rparr>]\<rparr>) \<and>
   unat (0x80 :: uint8_t) = 0x68 + 24 \<and> (0x68 + 24 :: nat) < 2 ^ 8"
  by (simp add: write_property_unfold demo_catalog_def demo_machine_def demo_device_def
      bus_address_eq i2c_addr_eq little_endian_2 Let_def)

end
